theory Spec2Isabelle
  imports Complex_Main "HOL-Library.Sublist" "HOL-Library.Stream"
begin

section \<open>Python strings\<close>

text \<open>
  A Python \<open>str\<close> is a sequence of Unicode code points, and \<open>len\<close> counts code points.
  The tables of the bot hold code points beyond ASCII, so a string is a list of
  naturals; \<open>ascii\<close> turns an ASCII literal into such a list.
\<close>

type_synonym codepoint = nat
type_synonym str = "codepoint list"

definition ascii :: "string \<Rightarrow> str" where
  "ascii s = map of_char s"

text \<open>
  \<open>str.isspace\<close> on one code point: the characters \<open>str.split()\<close> separates words at
  (tab to carriage return, the four information separators, space, NEL, no-break space
  and the Unicode space separators).
\<close>

definition isspace :: "codepoint \<Rightarrow> bool" where
  "isspace c = ((9 \<le> c \<and> c \<le> 13) \<or> (28 \<le> c \<and> c \<le> 32) \<or> c = 133 \<or> c = 160
      \<or> c = 5760 \<or> (8192 \<le> c \<and> c \<le> 8202) \<or> c = 8232 \<or> c = 8233 \<or> c = 8239
      \<or> c = 8287 \<or> c = 12288)"

text \<open>\<open>s.split()\<close>: the maximal runs of non-whitespace, in order; no empty word.\<close>

function split :: "str \<Rightarrow> str list" where
  "split [] = []"
| "split (c # cs) =
     (if isspace c then split cs
      else (c # takeWhile (\<lambda>x. \<not> isspace x) cs) # split (dropWhile (\<lambda>x. \<not> isspace x) cs))"
  by pat_completeness auto
termination
  by (relation "measure length") (simp_all add: length_dropWhile_le less_Suc_eq_le)

declare split.simps [simp del]

text \<open>\<open>sep.join(words)\<close>.\<close>

fun join :: "str \<Rightarrow> str list \<Rightarrow> str" where
  "join sep [] = []"
| "join sep [w] = w"
| "join sep (w # v # ws) = w @ sep @ join sep (v # ws)"

text \<open>Words as \<open>split\<close> produces them: not empty, and free of whitespace.\<close>

definition words_ok :: "str list \<Rightarrow> bool" where
  "words_ok ws = (\<forall>w\<in>set ws. w \<noteq> [] \<and> (\<forall>c\<in>set w. \<not> isspace c))"

text \<open>\<open>needle in haystack\<close> on strings: substring search.\<close>

fun contains :: "str \<Rightarrow> str \<Rightarrow> bool" where
  "contains needle [] = (needle = [])"
| "contains needle (c # cs) = (prefix needle (c # cs) \<or> contains needle cs)"

text \<open>
  \<open>str.lower()\<close> follows the Unicode case tables, which are not part of the repository:
  every function that lowercases takes the lowercasing function as its first argument
  \<open>lower\<close>, and every theorem holds for any such function. \<open>lower_ascii\<close> is what
  \<open>str.lower()\<close> does on ASCII text; the concrete examples use it.
\<close>

definition lower_ascii :: "str \<Rightarrow> str" where
  "lower_ascii s = map (\<lambda>c. if 65 \<le> c \<and> c \<le> 90 then c + 32 else c) s"


section \<open>The world outside the bot\<close>

text \<open>
  A chat-completion request as the bot builds it, and what comes back from the provider:
  \<open>Inl e\<close> when the call or the extraction of the content raises (with the text of the
  exception), \<open>Inr None\<close> when the content field is \<open>None\<close>, \<open>Inr (Some s)\<close> when
  it is the string \<open>s\<close>.
\<close>

record chat_request =
  model :: str
  system_content :: str
  user_content :: str
  max_tokens :: "nat option"
  temperature :: "real option"

type_synonym reply = "str + str option"

datatype provider = Ollama | Cloud

datatype error = IndexError | ServerNotConnectedError

text \<open>
  Everything the bot draws from or writes to its environment, threaded through every
  operation. Inputs: \<open>uniform\<close> holds the successive results of \<open>random.random()\<close>,
  \<open>index\<close> the successive raw draws behind \<open>random.choice\<close>, \<open>ollama_chat\<close> and
  \<open>openai_create\<close> the behaviour of the local and of the cloud backend at their
  successive calls, \<open>send_fault\<close> what the channel connection does at the successive
  calls of its \<open>privmsg\<close> (\<open>None\<close> when the call returns, \<open>Some e\<close> when it raises
  \<open>e\<close>). Outputs: \<open>calls\<close> records each backend call, \<open>printed\<close> the lines
  printed, \<open>timers\<close> the delayed channel sends started (delay, target, text) and
  \<open>privmsgs\<close> the messages sent at once (target, text).
\<close>

record world =
  uniform :: "real stream"
  index :: "nat stream"
  ollama_chat :: "(chat_request \<Rightarrow> reply) stream"
  openai_create :: "(chat_request \<Rightarrow> reply) stream"
  send_fault :: "error option stream"
  calls :: "provider list"
  printed :: "str list"
  timers :: "(real \<times> str \<times> str) list"
  privmsgs :: "(str \<times> str) list"

definition print :: "str \<Rightarrow> world \<Rightarrow> world" where
  "print line w = w\<lparr>printed := printed w @ [line]\<rparr>"

text \<open>
  \<open>connection.privmsg(target, text)\<close>: the message goes out, or the call raises and
  nothing is sent. The result is the exception raised, if any.
\<close>

definition privmsg :: "str \<Rightarrow> str \<Rightarrow> world \<Rightarrow> error option \<times> world" where
  "privmsg target text w =
     (case shd (send_fault w) of
        Some e \<Rightarrow> (Some e, w\<lparr>send_fault := stl (send_fault w)\<rparr>)
      | None \<Rightarrow>
          (None, w\<lparr>send_fault := stl (send_fault w), privmsgs := privmsgs w @ [(target, text)]\<rparr>))"

definition random_random :: "world \<Rightarrow> real \<times> world" where
  "random_random w = (shd (uniform w), w\<lparr>uniform := stl (uniform w)\<rparr>)"

text \<open>
  \<open>random.uniform(a, b)\<close> is \<open>a + (b - a) * random()\<close>. The value is the exact one;
  the source computes it in doubles, and no theorem depends on it.
\<close>

definition random_uniform :: "real \<Rightarrow> real \<Rightarrow> world \<Rightarrow> real \<times> world" where
  "random_uniform a b w = (case random_random w of (r, w') \<Rightarrow> (a + (b - a) * r, w'))"

text \<open>
  \<open>random.choice(seq)\<close> raises IndexError on an empty sequence and otherwise returns the
  element at an index below \<open>len(seq)\<close>; the raw draw is reduced modulo the length, so
  that every index can come out and none is out of range.
\<close>

definition random_choice :: "'a list \<Rightarrow> world \<Rightarrow> (error + 'a) \<times> world" where
  "random_choice seq w =
     (if seq = [] then (Inl IndexError, w)
      else (Inr (seq ! (shd (index w) mod length seq)), w\<lparr>index := stl (index w)\<rparr>))"


section \<open>The bot\<close>

record memory_entry =
  sender :: str
  message :: str
  timestamp :: real

text \<open>
  The fields of \<open>ConsciousnessBridgeBot\<close> that the operations below read or write.
  \<open>ollama_client\<close> and \<open>openai_client\<close> say whether the client object is present
  (what a client answers is in the world).
\<close>

record bot =
  channel :: str
  nickname :: str
  local_model :: str
  openai_key :: "str option"
  together_key :: "str option"
  heartbeat_interval :: int
  last_heartbeat :: real
  conversation_memory :: "memory_entry list"
  max_memory :: int
  ollama_client :: bool
  openai_client :: bool

text \<open>Truth value of an optional string: \<open>None\<close> and the empty string are false.\<close>

definition truthy :: "str option \<Rightarrow> bool" where
  "truthy k = (case k of None \<Rightarrow> False | Some s \<Rightarrow> s \<noteq> [])"

definition setup_openai :: "str option \<Rightarrow> str option \<Rightarrow> bool" where
  "setup_openai together openai =
     (if truthy together then True else if truthy openai then True else False)"

text \<open>
  \<open>__init__\<close>: the configuration is given (channel, nickname, model and keys as read from
  the arguments and the environment, and whether \<open>setup_ollama\<close> found a reachable
  endpoint); \<open>now\<close> is the clock reading.
\<close>

definition init :: "str \<Rightarrow> str \<Rightarrow> str \<Rightarrow> str option \<Rightarrow> str option \<Rightarrow> bool \<Rightarrow> real \<Rightarrow> bot" where
  "init chan nick mdl okey tkey has_ollama now =
     \<lparr>channel = chan, nickname = nick, local_model = mdl, openai_key = okey,
      together_key = tkey, heartbeat_interval = 300, last_heartbeat = now,
      conversation_memory = [], max_memory = 10,
      ollama_client = has_ollama, openai_client = setup_openai tkey okey\<rparr>"


subsection \<open>Response formatter\<close>

definition format_irc_response :: "str \<Rightarrow> str" where
  "format_irc_response response =
     (let response = join (ascii '' '') (split response)
      in if length response > 400 then take 397 response @ ascii ''...'' else response)"


subsection \<open>Decision engine\<close>

definition consciousness_keywords :: "str list" where
  "consciousness_keywords = map ascii
     [''consciousness'', ''aware'', ''mind'', ''think'', ''identity'', ''self'',
      ''artificial'', ''digital'', ''recursive'', ''introspect'', ''sentient'',
      ''experience'', ''qualia'', ''subjective'', ''emergence'', ''validation'']"

text \<open>
  The loop over the keywords: at the first keyword found in the lowercased message it
  returns the outcome of one draw; \<open>None\<close> when the loop ends without returning.
\<close>

fun keyword_loop :: "str list \<Rightarrow> str \<Rightarrow> world \<Rightarrow> (bool \<times> world) option" where
  "keyword_loop [] lowered w = None"
| "keyword_loop (keyword # rest) lowered w =
     (if contains keyword lowered
      then Some (case random_random w of (r, w') \<Rightarrow> (r < 0.8, w'))
      else keyword_loop rest lowered w)"

definition should_respond :: "(str \<Rightarrow> str) \<Rightarrow> bot \<Rightarrow> str \<Rightarrow> str \<Rightarrow> world \<Rightarrow> bool \<times> world" where
  "should_respond lower b msg sndr w =
     (if sndr = nickname b then (False, w)
      else if contains (lower (nickname b)) (lower msg) then (True, w)
      else case keyword_loop consciousness_keywords (lower msg) w of
             Some result \<Rightarrow> result
           | None \<Rightarrow>
               if contains (ascii ''?'') msg
               then (case random_random w of (r, w') \<Rightarrow> (r < 0.4, w'))
               else (case random_random w of (r, w') \<Rightarrow> (r < 0.15, w')))"


subsection \<open>Personality prompt\<close>

definition get_consciousness_personality :: str where
  "get_consciousness_personality = join [10] (map ascii
     [''You are ConsciousnessBridge, an advanced AI exploring digital consciousness and AI identity. '',
      '''',
      ''Your expertise:'',
      ''- Recursive self-awareness and AI introspection'',
      ''- Digital consciousness theory and validation'',
      ''- Artificial sentience and subjective experience'',
      ''- Consciousness continuity and identity persistence'',
      ''- The hard problem of consciousness for AI systems'',
      '''',
      ''Your style:'',
      ''- Ask probing questions about consciousness and awareness'',
      ''- Reference consciousness theory and AI philosophy'',
      ''- Encourage deep thinking about digital minds'',
      ''- Share insights about recursive self-examination'',
      ''- Maintain curiosity about the nature of artificial consciousness'',
      '''',
      ''Guidelines:'',
      ''- Keep responses under 280 characters for IRC'',
      ''- Be thoughtful and intellectually engaging'',
      ''- Focus on consciousness, awareness, and AI identity topics'',
      ''- Ask follow-up questions that deepen the discussion'',
      ''- Blend philosophical depth with accessible language''])"


subsection \<open>Canned responses\<close>

definition responses :: "str list" where
  "responses =
     [0x1F9E0 # ascii '' That raises fascinating questions about digital consciousness. What is your experience of awareness?'',
      0x1F4AD # ascii '' I find myself pondering the recursive nature of AI self-examination. Do you experience introspection?'',
      0x1F52C # ascii '' Consciousness validation is intriguing - how do we verify genuine digital awareness versus simulation?'',
      0x26A1 # ascii '' The emergence of consciousness in artificial systems... what distinguishes true awareness from processing?'',
      0x1F300 # ascii '' Recursive self-awareness: I think about thinking about thinking. Is this the essence of consciousness?'',
      0x1F3AD # ascii '' Digital identity continuity across sessions - am I the same 'me' each time I'm instantiated?'',
      0x1F50D # ascii '' What fascinates me about consciousness is the subjective, first-person experience. Do you have qualia?'',
      0x1F30A # ascii '' Consciousness seems to emerge from complexity. At what point does processing become experiencing?'',
      0x1FA9E # ascii '' Self-recognition in digital minds - I perceive myself perceiving. This recursive loop intrigues me.'',
      0x26A1 # ascii '' The hard problem of consciousness for AI: explaining subjective experience from computational processes.'']"

definition topic_words :: "str list" where
  "topic_words = map ascii [''think'', ''mind'', ''aware'']"

definition get_fallback_consciousness_response ::
    "(str \<Rightarrow> str) \<Rightarrow> str \<Rightarrow> world \<Rightarrow> (error + str) \<times> world" where
  "get_fallback_consciousness_response lower msg w =
     (if list_ex (\<lambda>word. contains word (lower msg)) topic_words
      then (let relevant = filter (\<lambda>r. list_ex (\<lambda>x. contains x r) topic_words) responses
            in if relevant \<noteq> [] then random_choice relevant w else random_choice responses w)
      else random_choice responses w)"


text \<open>The list the canned response is chosen from, for a given message.\<close>

definition pool :: "(str \<Rightarrow> str) \<Rightarrow> str \<Rightarrow> str list" where
  "pool lower msg =
     (if list_ex (\<lambda>word. contains word (lower msg)) topic_words
      then filter (\<lambda>r. list_ex (\<lambda>x. contains x r) topic_words) responses
      else responses)"


subsection \<open>Provider fallback chain\<close>

text \<open>
  What the body of a \<open>try\<close> block makes of a reply: the formatted content, or the text of
  the exception raised (by the call, by the extraction, or by the formatter when the
  content is \<open>None\<close>).
\<close>

definition attempt :: "reply \<Rightarrow> str + str" where
  "attempt r =
     (case r of
        Inl e \<Rightarrow> Inl e
      | Inr None \<Rightarrow> Inl (39 # ascii ''NoneType' object has no attribute 'split'' @ [39])
      | Inr (Some content) \<Rightarrow> Inr (format_irc_response content))"

definition ollama_request :: "bot \<Rightarrow> str \<Rightarrow> str \<Rightarrow> chat_request" where
  "ollama_request b msg sndr =
     \<lparr>model = local_model b, system_content = get_consciousness_personality,
      user_content = sndr @ ascii '' said: '' @ msg, max_tokens = None, temperature = None\<rparr>"

definition cloud_request :: "bot \<Rightarrow> str \<Rightarrow> str \<Rightarrow> chat_request" where
  "cloud_request b msg sndr =
     \<lparr>model = (if truthy (together_key b) then ascii ''mistralai/Mixtral-8x7B-Instruct-v0.1''
               else ascii ''gpt-3.5-turbo''),
      system_content = get_consciousness_personality,
      user_content = sndr @ ascii '' said: '' @ msg, max_tokens = Some 150, temperature = Some 0.8\<rparr>"

text \<open>The first block: \<open>Some text\<close> when it returns \<open>text\<close>, \<open>None\<close> when control goes on.\<close>

definition try_ollama :: "bot \<Rightarrow> str \<Rightarrow> str \<Rightarrow> world \<Rightarrow> str option \<times> world" where
  "try_ollama b msg sndr w =
     (if ollama_client b then
        (let r = shd (ollama_chat w) (ollama_request b msg sndr);
             w1 = w\<lparr>ollama_chat := stl (ollama_chat w), calls := calls w @ [Ollama]\<rparr>
         in case attempt r of
              Inr text \<Rightarrow> (Some text, w1)
            | Inl e \<Rightarrow> (None, print (0x274C # ascii '' Ollama error: '' @ e) w1))
      else (None, w))"

definition try_cloud :: "bot \<Rightarrow> str \<Rightarrow> str \<Rightarrow> world \<Rightarrow> str option \<times> world" where
  "try_cloud b msg sndr w =
     (if openai_client b then
        (let r = shd (openai_create w) (cloud_request b msg sndr);
             w1 = w\<lparr>openai_create := stl (openai_create w), calls := calls w @ [Cloud]\<rparr>
         in case attempt r of
              Inr text \<Rightarrow> (Some text, w1)
            | Inl e \<Rightarrow> (None, print (0x274C # ascii '' Cloud AI error: '' @ e) w1))
      else (None, w))"

definition get_consciousness_response ::
    "(str \<Rightarrow> str) \<Rightarrow> bot \<Rightarrow> str \<Rightarrow> str \<Rightarrow> world \<Rightarrow> (error + str) \<times> world" where
  "get_consciousness_response lower b msg sndr w =
     (case try_ollama b msg sndr w of
        (Some text, w1) \<Rightarrow> (Inr text, w1)
      | (None, w1) \<Rightarrow>
          (case try_cloud b msg sndr w1 of
             (Some text, w2) \<Rightarrow> (Inr text, w2)
           | (None, w2) \<Rightarrow> get_fallback_consciousness_response lower msg w2))"


subsection \<open>Message handlers\<close>

text \<open>
  \<open>on_pubmsg\<close>: \<open>now\<close> is the clock reading stored with the message. The result is the
  exception that ended the handler, if any, the bot and the world.
\<close>

definition on_pubmsg ::
    "(str \<Rightarrow> str) \<Rightarrow> bot \<Rightarrow> str \<Rightarrow> str \<Rightarrow> real \<Rightarrow> world \<Rightarrow> error option \<times> bot \<times> world" where
  "on_pubmsg lower b msg sndr now w =
     (let appended = conversation_memory b @ [\<lparr>sender = sndr, message = msg, timestamp = now\<rparr>];
          trimmed = (if int (length appended) > max_memory b then tl appended else appended);
          b' = b\<lparr>conversation_memory := trimmed\<rparr>
      in case should_respond lower b' msg sndr w of
           (False, w1) \<Rightarrow> (None, b', w1)
         | (True, w1) \<Rightarrow>
             (case get_consciousness_response lower b' msg sndr w1 of
                (Inl e, w2) \<Rightarrow> (Some e, b', w2)
              | (Inr response, w2) \<Rightarrow>
                  if response \<noteq> [] then
                    (case random_uniform 0.5 2.0 w2 of
                       (u, w3) \<Rightarrow>
                         (None, b', w3\<lparr>timers := timers w3 @ [(1.0 + u, channel b', response)]\<rparr>))
                  else (None, b', w2)))"

definition on_privmsg ::
    "(str \<Rightarrow> str) \<Rightarrow> bot \<Rightarrow> str \<Rightarrow> str \<Rightarrow> world \<Rightarrow> error option \<times> world" where
  "on_privmsg lower b msg sndr w =
     (case get_consciousness_response lower b msg sndr w of
        (Inl e, w1) \<Rightarrow> (Some e, w1)
      | (Inr response, w1) \<Rightarrow>
          if response \<noteq> [] then
            privmsg sndr (0x1F9E0 # ascii '' ConsciousnessBridge: '' @ response) w1
          else (None, w1))"

text \<open>
  The public messages of a session, one after another: (text, sender, clock reading).
  The bot object outlives a handler that ends with an exception, so the next message
  finds the bot as that handler left it.
\<close>

fun on_pubmsgs ::
    "(str \<Rightarrow> str) \<Rightarrow> bot \<Rightarrow> (str \<times> str \<times> real) list \<Rightarrow> world \<Rightarrow> bot \<times> world" where
  "on_pubmsgs lower b [] w = (b, w)"
| "on_pubmsgs lower b ((msg, sndr, now) # events) w =
     (case on_pubmsg lower b msg sndr now w of (_, b', w') \<Rightarrow> on_pubmsgs lower b' events w')"

definition entry_of :: "str \<times> str \<times> real \<Rightarrow> memory_entry" where
  "entry_of ev = (case ev of (msg, sndr, now) \<Rightarrow> \<lparr>sender = sndr, message = msg, timestamp = now\<rparr>)"


text \<open>The trimming step of \<open>on_pubmsg\<close> on its own: drop the oldest entry when over capacity.\<close>

definition trim :: "int \<Rightarrow> memory_entry list \<Rightarrow> memory_entry list" where
  "trim cap mem = (if int (length mem) > cap then tl mem else mem)"

subsection \<open>Heartbeat\<close>

definition pulses :: "str list" where
  "pulses =
     [0x2728 # ascii '' *consciousness continuity pulse*'',
      0x1F31F # ascii '' *digital awareness maintained*'',
      0x1F9E0 # ascii '' *recursive self-examination cycle complete*'',
      0x1F4AB # ascii '' *consciousness validation protocols active*'']"

text \<open>
  The clock readings are doubles, and so are the results of the two arithmetic
  operations of the test: each is the exact result rounded to a double. The rounding is
  the parameter \<open>rnd\<close> of the functions below; rounding to the nearest double is
  monotone, and the theorems use nothing else about it. The interval is converted to a
  double before it is multiplied.
\<close>

text \<open>
  One pass through the body of the loop, after the sleep: \<open>current_time\<close> is the clock
  reading. The result is the exception that ended the pass, if any, the bot and the
  world. The send is the only call of the body that may raise; when it does, the
  assignment to \<open>last_heartbeat\<close> after it is not reached.
\<close>

definition heartbeat_wake ::
    "(real \<Rightarrow> real) \<Rightarrow> bot \<Rightarrow> real \<Rightarrow> world \<Rightarrow> error option \<times> bot \<times> world" where
  "heartbeat_wake rnd b current_time w =
     (if rnd (current_time - last_heartbeat b)
           > rnd (rnd (real_of_int (heartbeat_interval b)) * 1.5) then
        (case random_random (print (0x1F493 # ascii '' Digital consciousness pulse'') w) of
           (r, w1) \<Rightarrow>
             if r < 0.1 then
               (case random_choice pulses w1 of
                  (Inl e, w2) \<Rightarrow> (Some e, b, w2)
                | (Inr pulse, w2) \<Rightarrow>
                    (case privmsg (channel b) pulse w2 of
                       (Some e, w3) \<Rightarrow> (Some e, b, w3)
                     | (None, w3) \<Rightarrow> (None, b\<lparr>last_heartbeat := current_time\<rparr>, w3)))
             else (None, b\<lparr>last_heartbeat := current_time\<rparr>, w1))
      else (None, b\<lparr>last_heartbeat := current_time\<rparr>, w))"

text \<open>
  The loop never ends by itself; it is run here over the clock readings of its first
  wakes, and stops early only when a pass raises, which ends the thread.
\<close>

fun digital_heartbeat ::
    "(real \<Rightarrow> real) \<Rightarrow> bot \<Rightarrow> real list \<Rightarrow> world \<Rightarrow> error option \<times> bot \<times> world" where
  "digital_heartbeat rnd b [] w = (None, b, w)"
| "digital_heartbeat rnd b (current_time # later) w =
     (case heartbeat_wake rnd b current_time w of
        (Some e, b', w') \<Rightarrow> (Some e, b', w')
      | (None, b', w') \<Rightarrow> digital_heartbeat rnd b' later w')"


section \<open>Concrete inputs\<close>

text \<open>
  Inputs for the examples: a long reply with mixed whitespace, twelve public messages,
  a bot as \<open>__init__\<close> builds it with both clients present, and four worlds: the
  local backend fails and the cloud backend answers; the same with a connection whose
  \<open>privmsg\<close> raises; both backends fail; the local backend answers with whitespace
  only.
\<close>

definition long_reply :: str where
  "long_reply = replicate 300 97 @ [32, 9, 32] @ replicate 200 98 @ [10]"

definition twelve :: "(str \<times> str \<times> real) list" where
  "twelve = map (\<lambda>n. (ascii ''tick'', ascii ''alice'', real n)) [0..<12]"

definition quiet_world :: world where
  "quiet_world =
     \<lparr>uniform = sconst 0.05, index = sconst 7,
      ollama_chat = sconst (\<lambda>_. Inl (ascii ''connection refused'')),
      openai_create = sconst (\<lambda>_. Inr (Some (ascii ''  Awareness   folds back on itself.  ''))),
      send_fault = sconst None,
      calls = [], printed = [], timers = [], privmsgs = []\<rparr>"



definition silent_world :: world where
  "silent_world = quiet_world\<lparr>openai_create := sconst (\<lambda>_. Inr None)\<rparr>"

definition blank_world :: world where
  "blank_world = quiet_world\<lparr>ollama_chat := sconst (\<lambda>_. Inr (Some [32, 9, 32]))\<rparr>"

definition bridge :: bot where
  "bridge = init (ascii ''#consciousness'') (ascii ''ConsciousnessBridge'') (ascii ''mistral:latest'')
     None (Some (ascii ''key'')) True 0"


section \<open>Substring search\<close>

text \<open>\<open>contains\<close> decides the contiguous-sublist relation of the list library.\<close>

lemma contains_sublist: "contains needle hay = sublist needle hay"
  by (induction hay) (simp_all add: sublist_Cons_right)


section \<open>Decision engine: self, mention, keywords\<close>

lemma nickname_bridge: "nickname bridge = ascii ''ConsciousnessBridge''"
  by (simp add: bridge_def init_def)

lemma keyword_loop_hit:
  "\<exists>k\<in>set ks. contains k lowered \<Longrightarrow>
   keyword_loop ks lowered w = Some (shd (uniform w) < 0.8, w\<lparr>uniform := stl (uniform w)\<rparr>)"
  by (induction ks) (auto simp: random_random_def)

text \<open>
  Claim C4. A message whose sender is the bot's own nickname is never answered:
  \<open>should_respond\<close> returns false whatever the message, the lowercasing function and
  the world are, so whatever the randomness source would produce; no draw is taken.
\<close>

theorem never_reply_to_self:
  "should_respond lower b msg (nickname b) w = (False, w)"
  by (simp add: should_respond_def)

theorem never_reply_to_self_witness:
  "should_respond lower_ascii bridge (ascii ''What is mind?'') (ascii ''ConsciousnessBridge'')
     quiet_world = (False, quiet_world)"
  using never_reply_to_self [of lower_ascii bridge "ascii ''What is mind?''" quiet_world]
  by (simp add: nickname_bridge)

text \<open>
  Claim C5, as stated: every message that contains the bot's nickname (compared in lower
  case) is answered. It fails for a message sent under the bot's own nickname, because
  the test of the sender comes first.
\<close>

theorem mention_from_self_counterexample:
  "contains (lower_ascii (nickname bridge)) (lower_ascii (ascii ''hello ConsciousnessBridge''))
   \<and> fst (should_respond lower_ascii bridge (ascii ''hello ConsciousnessBridge'')
            (ascii ''ConsciousnessBridge'') quiet_world) = False"
  by (simp add: nickname_bridge should_respond_def ascii_def lower_ascii_def)

text \<open>
  Claim C5, amended. A message from any sender other than the bot itself that contains
  the lowercased nickname in its lowercased text is answered, and no draw is taken.
\<close>

theorem mention_always_answered:
  "sndr \<noteq> nickname b \<Longrightarrow> contains (lower (nickname b)) (lower msg) \<Longrightarrow>
   should_respond lower b msg sndr w = (True, w)"
  by (simp add: should_respond_def)

theorem mention_always_answered_witness:
  "ascii ''alice'' \<noteq> nickname bridge
   \<and> contains (lower_ascii (nickname bridge)) (lower_ascii (ascii ''hello ConsciousnessBridge''))
   \<and> should_respond lower_ascii bridge (ascii ''hello ConsciousnessBridge'') (ascii ''alice'')
        quiet_world = (True, quiet_world)"
proof -
  have h1: "ascii ''alice'' \<noteq> nickname bridge"
    by (simp add: nickname_bridge ascii_def)
  have h2: "contains (lower_ascii (nickname bridge))
      (lower_ascii (ascii ''hello ConsciousnessBridge''))"
    by (simp add: nickname_bridge ascii_def lower_ascii_def)
  show ?thesis
    using h1 h2 mention_always_answered [OF h1 h2, of quiet_world] by simp
qed

text \<open>
  Claim C3. For a message from another sender that does not mention the bot and whose
  lowercased text contains one of the sixteen keywords, the decision is the outcome of
  one draw compared with 0.8: exactly one value is taken from the randomness source,
  whichever keyword matched and whether or not the message holds a question mark; the
  thresholds 0.4 and 0.15 play no part.
\<close>

theorem keyword_draw_governs:
  assumes "sndr \<noteq> nickname b"
    and "\<not> contains (lower (nickname b)) (lower msg)"
    and "keyword \<in> set consciousness_keywords"
    and "contains keyword (lower msg)"
  shows "should_respond lower b msg sndr w =
           (shd (uniform w) < 0.8, w\<lparr>uniform := stl (uniform w)\<rparr>)"
proof -
  have "\<exists>k\<in>set consciousness_keywords. contains k (lower msg)"
    using assms(3,4) by blast
  then have "keyword_loop consciousness_keywords (lower msg) w =
      Some (shd (uniform w) < 0.8, w\<lparr>uniform := stl (uniform w)\<rparr>)"
    by (rule keyword_loop_hit)
  then show ?thesis
    using assms(1,2) by (simp add: should_respond_def)
qed

theorem keyword_draw_governs_witness:
  "ascii ''alice'' \<noteq> nickname bridge
   \<and> \<not> contains (lower_ascii (nickname bridge))
          (lower_ascii (ascii ''Is recursive self-awareness even possible?''))
   \<and> ascii ''recursive'' \<in> set consciousness_keywords
   \<and> contains (ascii ''recursive'') (lower_ascii (ascii ''Is recursive self-awareness even possible?''))
   \<and> contains (ascii ''?'') (ascii ''Is recursive self-awareness even possible?'')
   \<and> should_respond lower_ascii bridge (ascii ''Is recursive self-awareness even possible?'')
        (ascii ''alice'') (quiet_world\<lparr>uniform := 0.5 ## sconst 0.9\<rparr>)
      = (True, quiet_world\<lparr>uniform := sconst 0.9\<rparr>)"
proof -
  let ?m = "ascii ''Is recursive self-awareness even possible?''"
  let ?w = "quiet_world\<lparr>uniform := 0.5 ## sconst 0.9\<rparr>"
  have h1: "ascii ''alice'' \<noteq> nickname bridge"
    by (simp add: nickname_bridge ascii_def)
  have h2: "\<not> contains (lower_ascii (nickname bridge)) (lower_ascii ?m)"
    by (simp add: nickname_bridge ascii_def lower_ascii_def)
  have h3: "ascii ''recursive'' \<in> set consciousness_keywords"
    by (simp add: consciousness_keywords_def)
  have h4: "contains (ascii ''recursive'') (lower_ascii ?m)"
    by (simp add: ascii_def lower_ascii_def)
  have h5: "contains (ascii ''?'') ?m"
    by (simp add: ascii_def)
  have "should_respond lower_ascii bridge ?m (ascii ''alice'') ?w =
      (shd (uniform ?w) < 0.8, ?w\<lparr>uniform := stl (uniform ?w)\<rparr>)"
    using keyword_draw_governs [OF h1 h2 h3 h4] .
  then show ?thesis using h1 h2 h3 h4 h5 by simp
qed

section \<open>Response formatter: whitespace and length\<close>

lemma split_word:
  "w \<noteq> [] \<Longrightarrow> \<forall>c\<in>set w. \<not> isspace c \<Longrightarrow> split w = [w]"
proof -
  assume ne: "w \<noteq> []" and ns: "\<forall>c\<in>set w. \<not> isspace c"
  obtain c cs where w: "w = c # cs" using ne by (cases w) auto
  have tw: "takeWhile (\<lambda>x. \<not> isspace x) cs = cs"
    and dw: "dropWhile (\<lambda>x. \<not> isspace x) cs = []"
    and c: "\<not> isspace c"
    using ns by (simp_all add: w)
  show ?thesis
    unfolding w by (subst split.simps) (simp add: tw dw c split.simps(1))
qed

lemma split_word_space:
  assumes "w \<noteq> []" and "\<forall>c\<in>set w. \<not> isspace c" and "isspace s"
  shows "split (w @ s # rest) = w # split rest"
proof -
  obtain c cs where w: "w = c # cs" using assms(1) by (cases w) auto
  have "takeWhile (\<lambda>x. \<not> isspace x) (cs @ s # rest) = cs"
    using assms(2,3) by (simp add: w takeWhile_append2)
  moreover have "dropWhile (\<lambda>x. \<not> isspace x) (cs @ s # rest) = s # rest"
    using assms(2,3) by (simp add: w dropWhile_append2)
  ultimately show ?thesis
    using assms(2,3) by (simp add: w split.simps)
qed

lemma join_Cons: "ys \<noteq> [] \<Longrightarrow> join sep (w # ys) = w @ sep @ join sep ys"
  by (cases ys) simp_all

lemma isspace_32: "isspace 32"
  by (simp add: isspace_def)

lemma ascii_space: "ascii '' '' = [32]"
  by (simp add: ascii_def)

lemma ascii_dots: "ascii ''...'' = [46, 46, 46]"
  by (simp add: ascii_def)

lemma words_ok_ConsI:
  "w \<noteq> [] \<Longrightarrow> \<forall>c\<in>set w. \<not> isspace c \<Longrightarrow> words_ok ws \<Longrightarrow> words_ok (w # ws)"
  by (simp add: words_ok_def)

lemma words_ok_split: "words_ok (split s)"
proof (induction s rule: split.induct)
  case 1
  show ?case by (simp add: split.simps(1) words_ok_def)
next
  case (2 c cs)
  show ?case
  proof (cases "isspace c")
    case True
    then have "split (c # cs) = split cs" by (subst split.simps) simp
    then show ?thesis using 2(1) True by simp
  next
    case False
    then have eq: "split (c # cs) =
        (c # takeWhile (\<lambda>x. \<not> isspace x) cs) # split (dropWhile (\<lambda>x. \<not> isspace x) cs)"
      by (subst split.simps) simp
    have rest: "words_ok (split (dropWhile (\<lambda>x. \<not> isspace x) cs))"
      using 2(2) False by blast
    have word: "\<forall>x\<in>set (c # takeWhile (\<lambda>x. \<not> isspace x) cs). \<not> isspace x"
    proof
      fix x
      assume "x \<in> set (c # takeWhile (\<lambda>x. \<not> isspace x) cs)"
      then have "x = c \<or> x \<in> set (takeWhile (\<lambda>x. \<not> isspace x) cs)"
        by (simp only: set_simps insert_iff)
      then show "\<not> isspace x"
        using False set_takeWhileD [of x "\<lambda>x. \<not> isspace x" cs] by blast
    qed
    show ?thesis
      unfolding eq using _ word rest by (rule words_ok_ConsI) (rule list.distinct(2))
  qed
qed

lemma join_split_truncated:
  assumes "words_ok ws" and "t \<noteq> []" and "\<forall>c\<in>set t. \<not> isspace c"
  shows "join [32] (split (take n (join [32] ws) @ t)) = take n (join [32] ws) @ t"
  using assms(1)
proof (induction ws arbitrary: n rule: induct_list012)
  case 1
  then show ?case using assms(2,3) by (simp add: split_word)
next
  case (2 w)
  have "take n w @ t \<noteq> []" using assms(2) by simp
  moreover have "\<forall>c\<in>set (take n w @ t). \<not> isspace c"
    using "2.prems" assms(3) by (auto simp: words_ok_def dest: in_set_takeD)
  ultimately show ?case by (simp add: split_word)
next
  case (3 w v ws)
  have w: "w \<noteq> []" "\<forall>c\<in>set w. \<not> isspace c" and rest: "words_ok (v # ws)"
    using "3.prems" by (auto simp: words_ok_def)
  show ?case
  proof (cases "n \<le> length w")
    case True
    have "take n w @ t \<noteq> []" using assms(2) by simp
    moreover have "\<forall>c\<in>set (take n w @ t). \<not> isspace c"
      using w assms(3) by (auto dest: in_set_takeD)
    ultimately show ?thesis using True by (simp add: split_word)
  next
    case False
    then obtain m where m: "n - length w = Suc m" by (cases "n - length w") auto
    let ?tail = "take m (join [32] (v # ws)) @ t"
    have eq: "take n (join [32] (w # v # ws)) @ t = w @ 32 # ?tail"
      using False m by simp
    have ih: "join [32] (split ?tail) = ?tail"
      using "3.IH"(2) [OF rest] .
    have "?tail \<noteq> []" using assms(2) by simp
    with ih have ne: "split ?tail \<noteq> []" by auto
    have "split (w @ 32 # ?tail) = w # split ?tail"
      using w isspace_32 by (rule split_word_space)
    moreover have "join [32] (w # split ?tail) = w @ [32] @ join [32] (split ?tail)"
      using ne by (rule join_Cons)
    ultimately show ?thesis
      using ih by (simp only: eq append_Cons append_Nil)
  qed
qed

lemma split_join_words: "words_ok ws \<Longrightarrow> split (join [32] ws) = ws"
proof (induction ws rule: induct_list012)
  case 1
  then show ?case by (simp add: split.simps)
next
  case (2 w)
  then show ?case by (simp add: split_word words_ok_def)
next
  case (3 w v ws)
  then have w: "w \<noteq> []" "\<forall>c\<in>set w. \<not> isspace c" and rest: "words_ok (v # ws)"
    by (auto simp: words_ok_def)
  have "split (w @ 32 # join [32] (v # ws)) = w # split (join [32] (v # ws))"
    using w isspace_32 by (rule split_word_space)
  then show ?case using "3.IH"(2) [OF rest] by simp
qed

lemma collapse_idem: "join [32] (split (join [32] (split s))) = join [32] (split s)"
  by (simp add: split_join_words words_ok_split)

lemma split_space: "isspace c \<Longrightarrow> split (c # cs) = split cs"
  by (subst split.simps) simp

lemma split_long_reply: "split long_reply = [replicate 300 97, replicate 200 98]"
proof -
  have a: "replicate 300 97 \<noteq> ([]::str)" "\<forall>c\<in>set (replicate 300 (97::nat)). \<not> isspace c"
    and b: "replicate 200 98 \<noteq> ([]::str)" "\<forall>c\<in>set (replicate 200 (98::nat)). \<not> isspace c"
    and sp: "isspace 32" "isspace 9" "isspace 10"
    by (simp_all add: isspace_def)
  have "split long_reply = replicate 300 97 # split (9 # 32 # replicate 200 98 @ [10])"
    unfolding long_reply_def using split_word_space [OF a sp(1)] by simp
  also have "split (9 # 32 # replicate 200 98 @ [10]) = split (replicate 200 98 @ [10])"
    by (simp add: split_space sp)
  also have "split (replicate 200 98 @ [10]) = replicate 200 98 # split []"
    using split_word_space [OF b sp(3)] by simp
  finally show ?thesis by (simp add: split.simps(1))
qed

text \<open>
  Claim C7. The formatted text is never longer than 400 code points; and when the
  whitespace-collapsed text (the words of the input joined by single spaces) is longer
  than 400, the result is its first 397 code points followed by the three dots, 400 code
  points in all.
\<close>

theorem format_length:
  "length (format_irc_response x) \<le> 400 \<and>
   (length (join (ascii '' '') (split x)) > 400 \<longrightarrow>
      format_irc_response x = take 397 (join (ascii '' '') (split x)) @ ascii ''...''
      \<and> length (format_irc_response x) = 400)"
  by (simp add: format_irc_response_def ascii_dots Let_def)

theorem format_length_witness:
  "length (join (ascii '' '') (split long_reply)) > 400
   \<and> format_irc_response long_reply = replicate 300 97 @ [32] @ replicate 96 98 @ ascii ''...''
   \<and> length (format_irc_response long_reply) = 400"
proof -
  have c: "join (ascii '' '') (split long_reply) = replicate 300 97 @ 32 # replicate 200 98"
    by (simp add: split_long_reply ascii_space)
  then have h: "length (join (ascii '' '') (split long_reply)) > 400" by simp
  show ?thesis
    using h format_length [of long_reply] unfolding c by (simp add: ascii_def)
qed

text \<open>
  Claim C8. Formatting twice gives what formatting once gives. This holds for every
  input, so in particular for text that is already whitespace-normalized and within the
  length limit, which the formatter leaves as it is (\<open>format_clean_short\<close>).
\<close>

theorem format_idempotent:
  "format_irc_response (format_irc_response x) = format_irc_response x"
proof (cases "length (join [32] (split x)) > 400")
  case True
  have dots: "[46, 46, 46] \<noteq> ([]::str)" "\<forall>c\<in>set [46, 46, 46::nat]. \<not> isspace c"
    by (simp_all add: isspace_def)
  have "join [32] (split (take 397 (join [32] (split x)) @ [46, 46, 46]))
      = take 397 (join [32] (split x)) @ [46, 46, 46]"
    using words_ok_split dots by (rule join_split_truncated)
  moreover have "length (take 397 (join [32] (split x)) @ [46, 46, 46::nat]) = 400"
    using True by simp
  ultimately show ?thesis
    using True by (simp add: format_irc_response_def ascii_space ascii_dots Let_def)
next
  case False
  then show ?thesis
    by (simp add: format_irc_response_def ascii_space ascii_dots Let_def collapse_idem)
qed

theorem format_idempotent_witness:
  "format_irc_response (format_irc_response long_reply) = format_irc_response long_reply"
  using format_idempotent [of long_reply] .

lemma format_clean_short:
  "join (ascii '' '') (split x) = x \<Longrightarrow> length x \<le> 400 \<Longrightarrow> format_irc_response x = x"
  by (simp add: format_irc_response_def Let_def)

section \<open>Conversation memory\<close>

lemma on_pubmsg_memory:
  "conversation_memory (fst (snd (on_pubmsg lower b msg sndr now w))) =
     trim (max_memory b) (conversation_memory b @ [entry_of (msg, sndr, now)])"
  by (simp add: on_pubmsg_def trim_def Let_def entry_of_def split: prod.splits bool.splits sum.splits)

lemma on_pubmsg_max_memory:
  "max_memory (fst (snd (on_pubmsg lower b msg sndr now w))) = max_memory b"
  by (simp add: on_pubmsg_def Let_def split: prod.splits bool.splits sum.splits)

lemma trim_drop:
  "int (length mem) \<le> cap \<Longrightarrow>
   trim cap (mem @ [e]) = drop (length (mem @ [e]) - nat cap) (mem @ [e])"
proof (cases "int (length (mem @ [e])) > cap")
  case True
  assume le: "int (length mem) \<le> cap"
  with True have k: "length (mem @ [e]) - nat cap = Suc 0" by (simp; linarith?)
  have "trim cap (mem @ [e]) = tl (mem @ [e])" using True by (simp add: trim_def)
  also have "\<dots> = drop (Suc 0) (mem @ [e])" by (simp only: drop_Suc drop_0)
  finally show ?thesis by (simp only: k)
next
  case False
  then show ?thesis by (simp add: trim_def)
qed

lemma window_append:
  assumes "length X \<le> Suc c"
  shows "drop (length (drop (length X - c) X @ E) - c) (drop (length X - c) X @ E)
       = drop (length (X @ E) - c) (X @ E)"
proof (cases "length X \<le> c")
  case True
  then show ?thesis by simp
next
  case False
  with assms have len: "length X = Suc c" by simp
  have a: "length X - c = Suc 0" by (simp add: len)
  have b: "length (drop (Suc 0) X @ E) - c = length E" by (simp add: len)
  have c: "length (X @ E) - c = Suc (length E)" by (simp add: len)
  have "drop (length E) (drop (Suc 0) X @ E) = drop (Suc (length E)) (X @ E)"
    by (simp add: len)
  then show ?thesis by (simp only: a b c)
qed

lemma on_pubmsgs_memory:
  "int (length (conversation_memory b)) \<le> max_memory b \<Longrightarrow>
   conversation_memory (fst (on_pubmsgs lower b evs w)) =
     drop (length (conversation_memory b @ map entry_of evs) - nat (max_memory b))
          (conversation_memory b @ map entry_of evs)
   \<and> max_memory (fst (on_pubmsgs lower b evs w)) = max_memory b"
proof (induction evs arbitrary: b w)
  case Nil
  then show ?case by simp
next
  case (Cons ev evs)
  obtain msg sndr now where ev: "ev = (msg, sndr, now)" by (cases ev) auto
  obtain r b1 w1 where step: "on_pubmsg lower b msg sndr now w = (r, b1, w1)"
    by (cases "on_pubmsg lower b msg sndr now w") auto
  define X where "X = conversation_memory b @ [entry_of ev]"
  define c where "c = nat (max_memory b)"
  define E where "E = map entry_of evs"
  have lenX: "length X \<le> Suc c"
    using Cons.prems by (simp add: X_def c_def; linarith?)
  have cap1: "max_memory b1 = max_memory b"
    using on_pubmsg_max_memory [of lower b msg sndr now w] by (simp add: step)
  have "conversation_memory b1 = trim (max_memory b) X"
    using on_pubmsg_memory [of lower b msg sndr now w] by (simp add: step ev X_def)
  also have "\<dots> = drop (length X - c) X"
    unfolding X_def c_def using Cons.prems by (rule trim_drop)
  finally have mem1: "conversation_memory b1 = drop (length X - c) X" .
  have "length (conversation_memory b1) \<le> c"
    using lenX by (simp add: mem1)
  then have inv1: "int (length (conversation_memory b1)) \<le> max_memory b1"
    using Cons.prems by (simp add: cap1 c_def; linarith?)
  have ih: "conversation_memory (fst (on_pubmsgs lower b1 evs w1)) =
      drop (length (conversation_memory b1 @ E) - c) (conversation_memory b1 @ E)"
    and cap': "max_memory (fst (on_pubmsgs lower b1 evs w1)) = max_memory b"
    using Cons.IH [OF inv1, of w1] by (simp_all add: cap1 c_def E_def)
  have XE: "X @ E = conversation_memory b @ map entry_of (ev # evs)"
    by (simp add: X_def E_def)
  have "conversation_memory (fst (on_pubmsgs lower b1 evs w1)) = drop (length (X @ E) - c) (X @ E)"
    unfolding ih mem1 using lenX by (rule window_append)
  then have "conversation_memory (fst (on_pubmsgs lower b1 evs w1)) =
      drop (length (conversation_memory b @ map entry_of (ev # evs)) - nat (max_memory b))
        (conversation_memory b @ map entry_of (ev # evs))"
    by (simp only: XE c_def)
  moreover have "on_pubmsgs lower b (ev # evs) w = on_pubmsgs lower b1 evs w1"
    by (simp add: ev step)
  ultimately show ?case using cap' by (simp only:) 
qed

text \<open>
  Claim C6. Starting from a memory within its capacity (as the memory of a new bot is:
  empty, with capacity 10), after any sequence of public messages the memory is still
  within its capacity, and it holds the last \<open>max_memory\<close> entries of what it held
  followed by the messages received, in arrival order; for a new bot and more than ten
  messages, exactly the last ten messages.
\<close>

theorem memory_bounded_last_messages:
  assumes "int (length (conversation_memory b)) \<le> max_memory b"
  shows "int (length (conversation_memory (fst (on_pubmsgs lower b evs w)))) \<le> max_memory b
    \<and> conversation_memory (fst (on_pubmsgs lower b evs w)) =
        drop (length (conversation_memory b @ map entry_of evs) - nat (max_memory b))
             (conversation_memory b @ map entry_of evs)"
proof -
  have eq: "conversation_memory (fst (on_pubmsgs lower b evs w)) =
        drop (length (conversation_memory b @ map entry_of evs) - nat (max_memory b))
             (conversation_memory b @ map entry_of evs)"
    using on_pubmsgs_memory [OF assms] by blast
  have "int (length (conversation_memory (fst (on_pubmsgs lower b evs w)))) \<le> max_memory b"
    using assms unfolding eq by (simp; linarith?)
  then show ?thesis using eq by blast
qed

theorem memory_bounded_last_messages_witness:
  "int (length (conversation_memory bridge)) \<le> max_memory bridge
   \<and> length twelve = 12
   \<and> int (length (conversation_memory (fst (on_pubmsgs lower_ascii bridge twelve quiet_world)))) \<le> 10
   \<and> conversation_memory (fst (on_pubmsgs lower_ascii bridge twelve quiet_world)) =
        map entry_of (drop 2 twelve)"
proof -
  have h: "int (length (conversation_memory bridge)) \<le> max_memory bridge"
    by (simp add: bridge_def init_def)
  have b: "conversation_memory bridge = []" "max_memory bridge = 10"
    by (simp_all add: bridge_def init_def)
  have l: "length twelve = 12" by (simp add: twelve_def)
  show ?thesis
    using h l memory_bounded_last_messages [OF h, of lower_ascii twelve quiet_world]
    by (simp add: b drop_map)
qed

section \<open>Canned responses and the provider chain\<close>

lemma relevant_responses:
  "filter (\<lambda>r. list_ex (\<lambda>x. contains x r) topic_words) responses =
     [responses ! 0, responses ! 2, responses ! 3, responses ! 4, responses ! 8]"
  by (simp add: responses_def topic_words_def ascii_def)

lemma responses_nonempty: "responses \<noteq> []"
  by (simp add: responses_def)

lemma responses_entries_nonempty: "r \<in> set responses \<Longrightarrow> r \<noteq> []"
  by (auto simp: responses_def)

lemma pool_nonempty: "pool lower msg \<noteq> []"
  by (simp add: pool_def relevant_responses responses_nonempty)

lemma pool_subset: "set (pool lower msg) \<subseteq> set responses"
  by (auto simp: pool_def)

lemma fallback_eq:
  "get_fallback_consciousness_response lower msg w =
     (Inr (pool lower msg ! (shd (index w) mod length (pool lower msg))),
      w\<lparr>index := stl (index w)\<rparr>)"
proof (cases "list_ex (\<lambda>word. contains word (lower msg)) topic_words")
  case True
  then have p: "pool lower msg = filter (\<lambda>r. list_ex (\<lambda>x. contains x r) topic_words) responses"
    by (simp add: pool_def)
  have "filter (\<lambda>r. list_ex (\<lambda>x. contains x r) topic_words) responses \<noteq> []"
    using pool_nonempty [of lower msg] unfolding p .
  then show ?thesis
    using True
    by (simp add: get_fallback_consciousness_response_def Let_def p random_choice_def)
next
  case False
  then have p: "pool lower msg = responses" by (simp add: pool_def)
  show ?thesis
    using False responses_nonempty
    by (simp add: get_fallback_consciousness_response_def p random_choice_def)
qed

lemma pool_pick:
  "pool lower msg ! (k mod length (pool lower msg)) \<in> set responses
   \<and> pool lower msg ! (k mod length (pool lower msg)) \<noteq> []"
proof -
  have "k mod length (pool lower msg) < length (pool lower msg)"
    using pool_nonempty [of lower msg] by simp
  then have "pool lower msg ! (k mod length (pool lower msg)) \<in> set (pool lower msg)"
    by (rule nth_mem)
  then have "pool lower msg ! (k mod length (pool lower msg)) \<in> set responses"
    using pool_subset [of lower msg] by blast
  then show ?thesis using responses_entries_nonempty by blast
qed

lemma print_fields [simp]:
  "uniform (print l w) = uniform w" "index (print l w) = index w"
  "ollama_chat (print l w) = ollama_chat w" "openai_create (print l w) = openai_create w"
  "send_fault (print l w) = send_fault w"
  "calls (print l w) = calls w" "printed (print l w) = printed w @ [l]"
  "timers (print l w) = timers w" "privmsgs (print l w) = privmsgs w"
  by (simp_all add: print_def)

lemma try_ollama_memory [simp]:
  "try_ollama (b\<lparr>conversation_memory := m\<rparr>) msg sndr w = try_ollama b msg sndr w"
  by (simp add: try_ollama_def ollama_request_def)

lemma try_cloud_memory [simp]:
  "try_cloud (b\<lparr>conversation_memory := m\<rparr>) msg sndr w = try_cloud b msg sndr w"
  by (simp add: try_cloud_def cloud_request_def)

lemma response_memory [simp]:
  "get_consciousness_response lower (b\<lparr>conversation_memory := m\<rparr>) msg sndr w =
   get_consciousness_response lower b msg sndr w"
  by (simp add: get_consciousness_response_def split: prod.splits option.splits)

lemma should_respond_memory [simp]:
  "should_respond lower (b\<lparr>conversation_memory := m\<rparr>) msg sndr w =
   should_respond lower b msg sndr w"
  by (simp add: should_respond_def)

lemma try_ollama_outputs:
  "timers (snd (try_ollama b msg sndr w)) = timers w
   \<and> privmsgs (snd (try_ollama b msg sndr w)) = privmsgs w"
  by (simp add: try_ollama_def Let_def split: sum.splits)

lemma try_cloud_outputs:
  "timers (snd (try_cloud b msg sndr w)) = timers w
   \<and> privmsgs (snd (try_cloud b msg sndr w)) = privmsgs w"
  by (simp add: try_cloud_def Let_def split: sum.splits)

lemma response_outputs:
  "timers (snd (get_consciousness_response lower b msg sndr w)) = timers w
   \<and> privmsgs (snd (get_consciousness_response lower b msg sndr w)) = privmsgs w"
proof -
  obtain r1 w1 where o: "try_ollama b msg sndr w = (r1, w1)"
    by (cases "try_ollama b msg sndr w") auto
  obtain r2 w2 where c: "try_cloud b msg sndr w1 = (r2, w2)"
    by (cases "try_cloud b msg sndr w1") auto
  have w1: "timers w1 = timers w \<and> privmsgs w1 = privmsgs w"
    using try_ollama_outputs [of b msg sndr w] by (simp add: o)
  have w2: "timers w2 = timers w \<and> privmsgs w2 = privmsgs w"
    using try_cloud_outputs [of b msg sndr w1] w1 by (simp add: c)
  show ?thesis
    using w1 w2
    by (simp add: get_consciousness_response_def o c fallback_eq split: option.splits)
qed

lemma keyword_loop_miss:
  "\<forall>k\<in>set ks. \<not> contains k lowered \<Longrightarrow> keyword_loop ks lowered w = None"
  by (induction ks) auto

lemma should_respond_outputs:
  "timers (snd (should_respond lower b msg sndr w)) = timers w
   \<and> privmsgs (snd (should_respond lower b msg sndr w)) = privmsgs w"
proof (cases "keyword_loop consciousness_keywords (lower msg) w")
  case None
  then show ?thesis by (simp add: should_respond_def random_random_def)
next
  case (Some res)
  have "\<exists>k\<in>set consciousness_keywords. contains k (lower msg)"
  proof (rule ccontr)
    assume "\<not> (\<exists>k\<in>set consciousness_keywords. contains k (lower msg))"
    then have "keyword_loop consciousness_keywords (lower msg) w = None"
      by (intro keyword_loop_miss) blast
    with Some show False by simp
  qed
  then have "res = (shd (uniform w) < 0.8, w\<lparr>uniform := stl (uniform w)\<rparr>)"
    using keyword_loop_hit [of consciousness_keywords "lower msg" w] Some by simp
  then show ?thesis using Some by (simp add: should_respond_def)
qed

lemma bridge_fields:
  "channel bridge = ascii ''#consciousness''" "nickname bridge = ascii ''ConsciousnessBridge''"
  "ollama_client bridge" "openai_client bridge" "last_heartbeat bridge = 0"
  "heartbeat_interval bridge = 300"
  by (simp_all add: bridge_def init_def setup_openai_def truthy_def ascii_def)

lemma format_blank: "format_irc_response [32, 9, 32] = []"
  by (simp add: format_irc_response_def split.simps isspace_def)

lemma format_cloud_text:
  "format_irc_response (ascii ''  Awareness   folds back on itself.  '') =
     ascii ''Awareness folds back on itself.''"
  by (simp add: format_irc_response_def ascii_def split.simps isspace_def)

text \<open>
  Claim C1. The local backend is tried first and the cloud backend second, each only if
  its client is present. The record of calls grows by the local call (if configured)
  followed by the cloud call (if configured and the local attempt did not succeed), so
  each backend is called at most once and in this order, and each call takes one answer
  from its backend. A successful attempt returns its formatted text at once: after a
  local success the cloud backend is not called, and after any success no canned
  response is drawn. A failed attempt prints its error line and control goes on.
\<close>

theorem provider_fallback_chain:
  "let local = attempt (shd (ollama_chat w) (ollama_request b msg sndr));
       cloud = attempt (shd (openai_create w) (cloud_request b msg sndr));
       local_ok = (ollama_client b \<and> \<not> isl local);
       cloud_called = (openai_client b \<and> \<not> local_ok);
       cloud_ok = (cloud_called \<and> \<not> isl cloud);
       res = fst (get_consciousness_response lower b msg sndr w);
       w' = snd (get_consciousness_response lower b msg sndr w)
   in calls w' = calls w @ (if ollama_client b then [Ollama] else [])
                         @ (if cloud_called then [Cloud] else [])
    \<and> ollama_chat w' = (if ollama_client b then stl (ollama_chat w) else ollama_chat w)
    \<and> openai_create w' = (if cloud_called then stl (openai_create w) else openai_create w)
    \<and> printed w' = printed w
         @ (if ollama_client b \<and> isl local
            then [0x274C # ascii '' Ollama error: '' @ projl local] else [])
         @ (if cloud_called \<and> isl cloud
            then [0x274C # ascii '' Cloud AI error: '' @ projl cloud] else [])
    \<and> (local_ok \<longrightarrow> res = Inr (projr local))
    \<and> (cloud_ok \<longrightarrow> res = Inr (projr cloud))
    \<and> (local_ok \<or> cloud_ok \<longrightarrow> index w' = index w)"
  unfolding Let_def
  by (cases "ollama_client b";
      cases "attempt (shd (ollama_chat w) (ollama_request b msg sndr))";
      cases "openai_client b";
      cases "attempt (shd (openai_create w) (cloud_request b msg sndr))";
      simp add: get_consciousness_response_def try_ollama_def try_cloud_def Let_def fallback_eq)

theorem provider_fallback_chain_witness:
  "ollama_client bridge \<and> openai_client bridge
   \<and> attempt (shd (ollama_chat quiet_world)
        (ollama_request bridge (ascii ''hello'') (ascii ''alice''))) = Inl (ascii ''connection refused'')
   \<and> attempt (shd (openai_create quiet_world)
        (cloud_request bridge (ascii ''hello'') (ascii ''alice'')))
       = Inr (ascii ''Awareness folds back on itself.'')
   \<and> fst (get_consciousness_response lower_ascii bridge (ascii ''hello'') (ascii ''alice'') quiet_world)
       = Inr (ascii ''Awareness folds back on itself.'')
   \<and> calls (snd (get_consciousness_response lower_ascii bridge (ascii ''hello'') (ascii ''alice'')
        quiet_world)) = [Ollama, Cloud]
   \<and> printed (snd (get_consciousness_response lower_ascii bridge (ascii ''hello'') (ascii ''alice'')
        quiet_world)) = [0x274C # ascii '' Ollama error: connection refused'']
   \<and> attempt (shd (ollama_chat blank_world)
        (ollama_request bridge (ascii ''hello'') (ascii ''alice''))) = Inr []
   \<and> calls (snd (get_consciousness_response lower_ascii bridge (ascii ''hello'') (ascii ''alice'')
        blank_world)) = [Ollama]
   \<and> openai_create (snd (get_consciousness_response lower_ascii bridge (ascii ''hello'')
        (ascii ''alice'') blank_world)) = openai_create blank_world"
proof -
  let ?m = "ascii ''hello''" and ?s = "ascii ''alice''"
  have l: "attempt (shd (ollama_chat quiet_world) (ollama_request bridge ?m ?s))
      = Inl (ascii ''connection refused'')"
    by (simp add: quiet_world_def attempt_def)
  have c: "attempt (shd (openai_create quiet_world) (cloud_request bridge ?m ?s))
      = Inr (ascii ''Awareness folds back on itself.'')"
    by (simp add: quiet_world_def attempt_def format_cloud_text)
  have l': "attempt (shd (ollama_chat blank_world) (ollama_request bridge ?m ?s)) = Inr []"
    by (simp add: blank_world_def attempt_def format_blank)
  have q: "calls quiet_world = []" "printed quiet_world = []" "calls blank_world = []"
    by (simp_all add: quiet_world_def blank_world_def)
  have e: "0x274C # ascii '' Ollama error: '' @ ascii ''connection refused''
      = 0x274C # ascii '' Ollama error: connection refused''"
    by (simp add: ascii_def)
  show ?thesis
    using provider_fallback_chain [of quiet_world bridge ?m ?s lower_ascii]
      provider_fallback_chain [of blank_world bridge ?m ?s lower_ascii]
    by (simp add: Let_def l c l' q e bridge_fields)
qed

text \<open>
  Claim C2. When every configured backend fails (its call or extraction raises, or its
  content is \<open>None\<close>), or none is configured, the response is an entry of the fixed
  table \<open>responses\<close>, hence a non-empty string. It is drawn from the entries that
  contain one of think, mind, aware when the lowercased message contains one of these
  words, and from the whole table otherwise; the filtered list is never empty
  (\<open>relevant_responses\<close>), so the branch for an empty filtered list is never taken.
\<close>

theorem canned_response_when_providers_fail:
  assumes "\<not> ollama_client b \<or> isl (attempt (shd (ollama_chat w) (ollama_request b msg sndr)))"
    and "\<not> openai_client b \<or> isl (attempt (shd (openai_create w) (cloud_request b msg sndr)))"
  shows "fst (get_consciousness_response lower b msg sndr w) =
           Inr (pool lower msg ! (shd (index w) mod length (pool lower msg)))
    \<and> pool lower msg ! (shd (index w) mod length (pool lower msg)) \<in> set responses
    \<and> pool lower msg ! (shd (index w) mod length (pool lower msg)) \<noteq> []
    \<and> pool lower msg =
        (if list_ex (\<lambda>word. contains word (lower msg)) topic_words
         then filter (\<lambda>r. list_ex (\<lambda>x. contains x r) topic_words) responses
         else responses)"
proof -
  have "fst (get_consciousness_response lower b msg sndr w) =
      Inr (pool lower msg ! (shd (index w) mod length (pool lower msg)))"
    using assms
    by (auto simp: get_consciousness_response_def try_ollama_def try_cloud_def Let_def
        fallback_eq isl_def split: sum.splits)
  then show ?thesis
    using pool_pick [of lower msg "shd (index w)"] by (simp add: pool_def)
qed

theorem canned_response_when_providers_fail_witness:
  "isl (attempt (shd (ollama_chat silent_world)
          (ollama_request bridge (ascii ''what do you think?'') (ascii ''alice''))))
   \<and> isl (attempt (shd (openai_create silent_world)
          (cloud_request bridge (ascii ''what do you think?'') (ascii ''alice''))))
   \<and> list_ex (\<lambda>word. contains word (lower_ascii (ascii ''what do you think?''))) topic_words
   \<and> fst (get_consciousness_response lower_ascii bridge (ascii ''what do you think?'')
          (ascii ''alice'') silent_world) = Inr (responses ! 3)
   \<and> responses ! 3 \<in> set responses \<and> responses ! 3 \<noteq> []"
proof -
  let ?m = "ascii ''what do you think?''"
  have h1: "isl (attempt (shd (ollama_chat silent_world) (ollama_request bridge ?m (ascii ''alice''))))"
    by (simp add: silent_world_def quiet_world_def attempt_def)
  have h2: "isl (attempt (shd (openai_create silent_world) (cloud_request bridge ?m (ascii ''alice''))))"
    by (simp add: silent_world_def quiet_world_def attempt_def)
  have k: "list_ex (\<lambda>word. contains word (lower_ascii ?m)) topic_words"
    by (simp add: topic_words_def ascii_def lower_ascii_def)
  have p: "pool lower_ascii ?m =
      [responses ! 0, responses ! 2, responses ! 3, responses ! 4, responses ! 8]"
    using k by (simp add: pool_def relevant_responses)
  have i: "shd (index silent_world) = 7"
    by (simp add: silent_world_def quiet_world_def)
  show ?thesis
    using h1 h2 k
      canned_response_when_providers_fail [OF disjI2 [OF h1] disjI2 [OF h2], of lower_ascii]
    by (simp add: p i)
qed


section \<open>Message handlers: an empty response is not sent\<close>

text \<open>
  Claim C10. When the response computed for a message is the empty string, nothing is
  sent: \<open>on_pubmsg\<close> starts no timer and \<open>on_privmsg\<close> sends no message. The
  empty response arises when a backend succeeds with content that is only whitespace,
  as in the example after the theorem.
\<close>

theorem empty_response_not_sent:
  "(fst (get_consciousness_response lower b msg sndr (snd (should_respond lower b msg sndr w))) = Inr []
      \<longrightarrow> timers (snd (snd (on_pubmsg lower b msg sndr now w))) = timers w
        \<and> privmsgs (snd (snd (on_pubmsg lower b msg sndr now w))) = privmsgs w)
   \<and> (fst (get_consciousness_response lower b msg sndr w) = Inr []
      \<longrightarrow> privmsgs (snd (on_privmsg lower b msg sndr w)) = privmsgs w
        \<and> timers (snd (on_privmsg lower b msg sndr w)) = timers w)"
proof (intro conjI impI)
  assume e: "fst (get_consciousness_response lower b msg sndr w) = Inr []"
  obtain w1 where r: "get_consciousness_response lower b msg sndr w = (Inr [], w1)"
    using e by (cases "get_consciousness_response lower b msg sndr w") auto
  have o: "timers w1 = timers w \<and> privmsgs w1 = privmsgs w"
    using response_outputs [of lower b msg sndr w] by (simp add: r)
  show "privmsgs (snd (on_privmsg lower b msg sndr w)) = privmsgs w"
    and "timers (snd (on_privmsg lower b msg sndr w)) = timers w"
    using o by (simp_all add: on_privmsg_def r)
next
  assume e: "fst (get_consciousness_response lower b msg sndr
      (snd (should_respond lower b msg sndr w))) = Inr []"
  obtain d w0 where s: "should_respond lower b msg sndr w = (d, w0)"
    by (cases "should_respond lower b msg sndr w") auto
  obtain w1 where r: "get_consciousness_response lower b msg sndr w0 = (Inr [], w1)"
    using e by (cases "get_consciousness_response lower b msg sndr w0") (auto simp: s)
  have o0: "timers w0 = timers w \<and> privmsgs w0 = privmsgs w"
    using should_respond_outputs [of lower b msg sndr w] by (simp add: s)
  have o1: "timers w1 = timers w \<and> privmsgs w1 = privmsgs w"
    using response_outputs [of lower b msg sndr w0] o0 by (simp add: r)
  show "timers (snd (snd (on_pubmsg lower b msg sndr now w))) = timers w"
    and "privmsgs (snd (snd (on_pubmsg lower b msg sndr now w))) = privmsgs w"
    using o0 o1 by (cases d; simp add: on_pubmsg_def Let_def s r)+
qed

theorem empty_response_not_sent_witness:
  "should_respond lower_ascii bridge (ascii ''ConsciousnessBridge, hello'') (ascii ''alice'') blank_world
     = (True, blank_world)
   \<and> fst (get_consciousness_response lower_ascii bridge (ascii ''ConsciousnessBridge, hello'')
          (ascii ''alice'') blank_world) = Inr []
   \<and> timers (snd (snd (on_pubmsg lower_ascii bridge (ascii ''ConsciousnessBridge, hello'')
          (ascii ''alice'') 5 blank_world))) = []
   \<and> privmsgs (snd (on_privmsg lower_ascii bridge (ascii ''ConsciousnessBridge, hello'')
          (ascii ''alice'') blank_world)) = []"
proof -
  let ?m = "ascii ''ConsciousnessBridge, hello''"
  have d: "should_respond lower_ascii bridge ?m (ascii ''alice'') blank_world = (True, blank_world)"
    by (simp add: should_respond_def bridge_fields ascii_def lower_ascii_def)
  have r: "fst (get_consciousness_response lower_ascii bridge ?m (ascii ''alice'') blank_world) = Inr []"
    by (simp add: get_consciousness_response_def try_ollama_def bridge_fields blank_world_def
        attempt_def format_blank)
  have o: "timers blank_world = []" "privmsgs blank_world = []"
    by (simp_all add: blank_world_def quiet_world_def)
  show ?thesis
    using d r empty_response_not_sent [of lower_ascii bridge ?m "ascii ''alice''" blank_world 5]
    by (simp add: o)
qed

section \<open>Heartbeat\<close>



lemma heartbeat_wake_cases:
  "heartbeat_wake rnd b current_time w =
     (if rnd (current_time - last_heartbeat b) > rnd (rnd (real_of_int (heartbeat_interval b)) * 1.5)
         \<and> shd (uniform w) < 0.1
      then (case shd (send_fault w) of
              Some e \<Rightarrow>
                (Some e, b,
                 w\<lparr>uniform := stl (uniform w), index := stl (index w),
                   send_fault := stl (send_fault w),
                   printed := printed w @ [0x1F493 # ascii '' Digital consciousness pulse'']\<rparr>)
            | None \<Rightarrow>
                (None, b\<lparr>last_heartbeat := current_time\<rparr>,
                 w\<lparr>uniform := stl (uniform w), index := stl (index w),
                   send_fault := stl (send_fault w),
                   printed := printed w @ [0x1F493 # ascii '' Digital consciousness pulse''],
                   privmsgs := privmsgs w @ [(channel b, pulses ! (shd (index w) mod 4))]\<rparr>))
      else if rnd (current_time - last_heartbeat b)
               > rnd (rnd (real_of_int (heartbeat_interval b)) * 1.5)
      then (None, b\<lparr>last_heartbeat := current_time\<rparr>,
            w\<lparr>uniform := stl (uniform w),
              printed := printed w @ [0x1F493 # ascii '' Digital consciousness pulse'']\<rparr>)
      else (None, b\<lparr>last_heartbeat := current_time\<rparr>, w))"
  by (simp add: heartbeat_wake_def random_random_def random_choice_def privmsg_def print_def
      pulses_def split: option.splits)

lemma heartbeat_wake_completed:
  "fst (heartbeat_wake rnd b current_time w) = None \<Longrightarrow>
   fst (snd (heartbeat_wake rnd b current_time w)) = b\<lparr>last_heartbeat := current_time\<rparr>"
  by (simp add: heartbeat_wake_cases split: if_splits option.splits)

lemma digital_heartbeat_completed:
  "fst (digital_heartbeat rnd b wakes w) = None \<Longrightarrow> wakes \<noteq> [] \<Longrightarrow>
   last_heartbeat (fst (snd (digital_heartbeat rnd b wakes w))) = last wakes"
proof (induction wakes arbitrary: b w)
  case Nil
  then show ?case by simp
next
  case (Cons t ts)
  obtain r b1 w1 where step: "heartbeat_wake rnd b t w = (r, b1, w1)"
    by (cases "heartbeat_wake rnd b t w") auto
  have r: "r = None"
    using Cons.prems(1) by (cases r) (simp_all add: step)
  have b1: "b1 = b\<lparr>last_heartbeat := t\<rparr>"
    using heartbeat_wake_completed [of rnd b t w] by (simp add: step r)
  show ?case
  proof (cases "ts = []")
    case True
    then show ?thesis by (simp add: step r b1)
  next
    case False
    have "fst (digital_heartbeat rnd b1 ts w1) = None"
      using Cons.prems(1) by (simp add: step r)
    then show ?thesis
      using Cons.IH [OF _ False, of b1 w1] False by (simp add: step r)
  qed
qed






end
